theory Spec2Isabelle
  imports Main "HOL-Library.Sublist"
begin

section \<open>Python strings\<close>

text \<open>
  A Python \<open>str\<close> is a sequence of Unicode code points; \<open>len\<close> counts code points.
  The model keeps each code point as a natural number. \<open>ascii\<close> writes a literal.
\<close>

type_synonym pystr = "nat list"

definition ascii :: "string \<Rightarrow> pystr" where
  "ascii s = map of_char s"

text \<open>
  \<open>str.isdigit()\<close> is true when the string is not empty and every character has the
  Unicode property Numeric_Type=Decimal or Numeric_Type=Digit. The two tables are the
  code point ranges of Unicode 14.0.0 (the database of CPython 3.11): first the decimal
  digits (general category Nd, also what \<open>\d\<close> matches in a \<open>str\<close> pattern), then the
  other characters of numeric type Digit (superscripts, circled digits and the like).
  Every run of decimal digits starts with the digit zero and is in increasing order.
\<close>

definition decimal_ranges :: "(nat \<times> nat) list" where
  "decimal_ranges =
    [(48, 57), (1632, 1641), (1776, 1785), (1984, 1993), (2406, 2415), (2534, 2543),
     (2662, 2671), (2790, 2799), (2918, 2927), (3046, 3055), (3174, 3183), (3302, 3311),
     (3430, 3439), (3558, 3567), (3664, 3673), (3792, 3801), (3872, 3881), (4160, 4169),
     (4240, 4249), (6112, 6121), (6160, 6169), (6470, 6479), (6608, 6617), (6784, 6793),
     (6800, 6809), (6992, 7001), (7088, 7097), (7232, 7241), (7248, 7257), (42528, 42537),
     (43216, 43225), (43264, 43273), (43472, 43481), (43504, 43513), (43600, 43609),
     (44016, 44025), (65296, 65305), (66720, 66729), (68912, 68921), (69734, 69743),
     (69872, 69881), (69942, 69951), (70096, 70105), (70384, 70393), (70736, 70745),
     (70864, 70873), (71248, 71257), (71360, 71369), (71472, 71481), (71904, 71913),
     (72016, 72025), (72784, 72793), (73040, 73049), (73120, 73129), (92768, 92777),
     (92864, 92873), (93008, 93017), (120782, 120831), (123200, 123209), (123632, 123641),
     (125264, 125273), (130032, 130041)]"

definition other_digit_ranges :: "(nat \<times> nat) list" where
  "other_digit_ranges =
    [(178, 179), (185, 185), (4969, 4977), (6618, 6618), (8304, 8304), (8308, 8313),
     (8320, 8329), (9312, 9320), (9332, 9340), (9352, 9360), (9450, 9450), (9461, 9469),
     (9471, 9471), (10102, 10110), (10112, 10120), (10122, 10130), (68160, 68163),
     (69216, 69224), (69714, 69722), (127232, 127242)]"

definition in_ranges :: "nat \<Rightarrow> (nat \<times> nat) list \<Rightarrow> bool" where
  "in_ranges c rs = list_ex (\<lambda>(lo, hi). lo \<le> c \<and> c \<le> hi) rs"

definition isdecimal_char :: "nat \<Rightarrow> bool" where
  "isdecimal_char c = in_ranges c decimal_ranges"

definition isdigit_char :: "nat \<Rightarrow> bool" where
  "isdigit_char c = (in_ranges c decimal_ranges \<or> in_ranges c other_digit_ranges)"

definition isdigit :: "pystr \<Rightarrow> bool" where
  "isdigit s = (s \<noteq> [] \<and> list_all isdigit_char s)"

text \<open>The ASCII digits \<open>0\<close> to \<open>9\<close>, code points 48 to 57.\<close>

definition ascii_digit :: "nat \<Rightarrow> bool" where
  "ascii_digit c = (48 \<le> c \<and> c \<le> 57)"

section \<open>Errors\<close>

text \<open>
  Every exception the modelled code can raise. The first three are the \<open>ValueError\<close>s
  raised by the repository's own \<open>raise\<close> statements, told apart by their message;
  \<open>DateValueError\<close> is a \<open>ValueError\<close> raised inside the \<open>datetime\<close> module and
  \<open>DateOverflowError\<close> the \<open>OverflowError\<close> of date arithmetic.
\<close>

datatype error =
    InvalidPhone
  | InvalidDateFormat
  | PhoneNotFound
  | DateValueError
  | DateOverflowError

section \<open>Phone\<close>

text \<open>
  \<open>Phone.__init__\<close>: raises unless \<open>value.isdigit() and len(value) == 10\<close>, otherwise
  stores the text as it is. The result is the stored \<open>value\<close>.
\<close>

definition Phone :: "pystr \<Rightarrow> error + pystr" where
  "Phone v = (if \<not> (isdigit v \<and> length v = 10) then Inl InvalidPhone else Inr v)"

section \<open>Dates\<close>

text \<open>
  A \<open>datetime.date\<close>: three integer fields. \<open>Birthday\<close> keeps the \<open>datetime\<close> that
  \<open>strptime\<close> returns, whose time of day is always midnight; only its \<open>.date()\<close> is
  ever read, so the model stores the date.
\<close>

record date =
  year :: int
  month :: int
  day :: int

text \<open>
  The calendar arithmetic of the \<open>datetime\<close> module (\<open>_is_leap\<close>, \<open>_days_before_year\<close>,
  \<open>_days_in_month\<close>, \<open>_days_before_month\<close>, \<open>_ymd2ord\<close>, \<open>_ord2ymd\<close>). Both tables
  hold the placeholder \<open>-1\<close> at index 0 and are read at a month in 1..12 only: every
  caller has checked the month before. Python's \<open>//\<close> and \<open>%\<close> round to minus infinity,
  as \<open>div\<close> and \<open>mod\<close> on \<open>int\<close> do, and \<open>>> 5\<close> is \<open>div 32\<close>.
\<close>

definition MINYEAR :: int where
  "MINYEAR = 1"

definition MAXYEAR :: int where
  "MAXYEAR = 9999"

definition MAXORDINAL :: int where
  "MAXORDINAL = 3652059"

definition is_leap :: "int \<Rightarrow> bool" where
  "is_leap y = (y mod 4 = 0 \<and> (y mod 100 \<noteq> 0 \<or> y mod 400 = 0))"

definition days_before_year :: "int \<Rightarrow> int" where
  "days_before_year y = (y - 1) * 365 + (y - 1) div 4 - (y - 1) div 100 + (y - 1) div 400"

definition DAYS_IN_MONTH :: "int list" where
  "DAYS_IN_MONTH = [-1, 31, 28, 31, 30, 31, 30, 31, 31, 30, 31, 30, 31]"

definition DAYS_BEFORE_MONTH :: "int list" where
  "DAYS_BEFORE_MONTH = [-1, 0, 31, 59, 90, 120, 151, 181, 212, 243, 273, 304, 334]"

definition days_in_month :: "int \<Rightarrow> int \<Rightarrow> int" where
  "days_in_month y m = (if m = 2 \<and> is_leap y then 29 else DAYS_IN_MONTH ! nat m)"

definition days_before_month :: "int \<Rightarrow> int \<Rightarrow> int" where
  "days_before_month y m =
     DAYS_BEFORE_MONTH ! nat m + (if m > 2 \<and> is_leap y then 1 else 0)"

definition ymd2ord :: "int \<Rightarrow> int \<Rightarrow> int \<Rightarrow> int" where
  "ymd2ord y m d = days_before_year y + days_before_month y m + d"

text \<open>
  The second half of \<open>_ord2ymd\<close>: from the offset \<open>n\<close> of a day within its year to the
  month and the day of the month, by an estimate of the month that is exact or one too
  large.
\<close>

definition month_day_of_offset :: "bool \<Rightarrow> int \<Rightarrow> int \<times> int" where
  "month_day_of_offset leapyear n =
     (let month = (n + 50) div 32;
          preceding = DAYS_BEFORE_MONTH ! nat month + (if month > 2 \<and> leapyear then 1 else 0)
      in if preceding > n then
           (month - 1,
            n - (preceding -
                 (DAYS_IN_MONTH ! nat (month - 1) + (if month - 1 = 2 \<and> leapyear then 1 else 0)))
              + 1)
         else (month, n - preceding + 1))"

definition ord2ymd :: "int \<Rightarrow> int \<times> int \<times> int" where
  "ord2ymd n =
     (let n0 = n - 1;
          n400 = n0 div 146097; r400 = n0 mod 146097;
          n100 = r400 div 36524; r100 = r400 mod 36524;
          n4 = r100 div 1461; r4 = r100 mod 1461;
          n1 = r4 div 365; r1 = r4 mod 365;
          y = n400 * 400 + 1 + (n100 * 100 + n4 * 4 + n1)
      in if n1 = 4 \<or> n100 = 4 then (y - 1, 12, 31)
         else (case month_day_of_offset (n1 = 3 \<and> (n4 \<noteq> 24 \<or> n100 = 3)) r1 of
                 (m, d) \<Rightarrow> (y, m, d)))"

text \<open>
  The constructor \<open>date(year, month, day)\<close> with the checks of \<open>_check_date_fields\<close>,
  and the methods of \<open>date\<close> the address book calls: \<open>replace(year=...)\<close>, the comparison
  \<open><\<close> (of the triples year, month, day), \<open>toordinal\<close>, \<open>fromordinal\<close>, \<open>weekday\<close>
  (Monday is 0, Sunday 6), the addition of \<open>timedelta(days=k)\<close> and the number of days
  between two dates.
\<close>

definition date_new :: "int \<Rightarrow> int \<Rightarrow> int \<Rightarrow> error + date" where
  "date_new y m d =
     (if \<not> (MINYEAR \<le> y \<and> y \<le> MAXYEAR) then Inl DateValueError
      else if \<not> (1 \<le> m \<and> m \<le> 12) then Inl DateValueError
      else if \<not> (1 \<le> d \<and> d \<le> days_in_month y m) then Inl DateValueError
      else Inr \<lparr>year = y, month = m, day = d\<rparr>)"

definition replace_year :: "date \<Rightarrow> int \<Rightarrow> error + date" where
  "replace_year d y = date_new y (month d) (day d)"

definition date_less :: "date \<Rightarrow> date \<Rightarrow> bool" where
  "date_less a b =
     (year a < year b \<or>
      (year a = year b \<and> (month a < month b \<or> (month a = month b \<and> day a < day b))))"

definition toordinal :: "date \<Rightarrow> int" where
  "toordinal d = ymd2ord (year d) (month d) (day d)"

definition fromordinal :: "int \<Rightarrow> error + date" where
  "fromordinal n = (case ord2ymd n of (y, m, d) \<Rightarrow> date_new y m d)"

definition weekday :: "date \<Rightarrow> int" where
  "weekday d = (toordinal d + 6) mod 7"

definition add_days :: "date \<Rightarrow> int \<Rightarrow> error + date" where
  "add_days d k =
     (let n = toordinal d + k
      in if 0 < n \<and> n \<le> MAXORDINAL then fromordinal n else Inl DateOverflowError)"

definition days_between :: "date \<Rightarrow> date \<Rightarrow> int" where
  "days_between a b = toordinal a - toordinal b"

text \<open>A date as \<open>date\<close> objects always are: built by the constructor.\<close>

definition valid_date :: "date \<Rightarrow> bool" where
  "valid_date d =
     (MINYEAR \<le> year d \<and> year d \<le> MAXYEAR \<and> 1 \<le> month d \<and> month d \<le> 12 \<and>
      1 \<le> day d \<and> day d \<le> days_in_month (year d) (month d))"

section \<open>Record\<close>

text \<open>
  A \<open>Record\<close> object: \<open>name\<close> is the text of its \<open>Name\<close> field, \<open>phones\<close> the texts of its
  \<open>Phone\<close> objects in list order (a \<open>Phone\<close> is created by \<open>add_phone\<close> only and never
  shared, so assigning to \<open>p.value\<close> is an update of that list element), \<open>birthday\<close> is
  \<open>None\<close> or the stored date.

  A method that mutates the object returns the pair of its outcome (\<open>Inl\<close> the exception
  raised, \<open>Inr ()\<close> a normal return) and the object as the call leaves it.
\<close>

record Record =
  name :: pystr
  phones :: "pystr list"
  birthday :: "date option"

definition Record_init :: "pystr \<Rightarrow> Record" where
  "Record_init n = \<lparr>name = n, phones = [], birthday = None\<rparr>"

definition add_phone :: "Record \<Rightarrow> pystr \<Rightarrow> (error + unit) \<times> Record" where
  "add_phone r phone_number =
     (case Phone phone_number of
        Inl e \<Rightarrow> (Inl e, r)
      | Inr v \<Rightarrow> (Inr (), r\<lparr>phones := phones r @ [v]\<rparr>))"

definition remove_phone :: "Record \<Rightarrow> pystr \<Rightarrow> (error + unit) \<times> Record" where
  "remove_phone r phone_number =
     (Inr (), r\<lparr>phones := filter (\<lambda>p. p \<noteq> phone_number) (phones r)\<rparr>)"

text \<open>
  The loop of \<open>edit_phone\<close> over \<open>self.phones\<close>: at the first element equal to
  \<open>old_number\<close> it builds \<open>Phone(new_number)\<close>, which may raise, assigns and returns;
  after the last element it raises \<open>ValueError("Old number not found.")\<close>.
\<close>

fun edit_phone_loop :: "pystr list \<Rightarrow> pystr \<Rightarrow> pystr \<Rightarrow> (error + unit) \<times> pystr list" where
  "edit_phone_loop [] old_number new_number = (Inl PhoneNotFound, [])"
| "edit_phone_loop (p # ps) old_number new_number =
     (if p = old_number then
        (case Phone new_number of
           Inl e \<Rightarrow> (Inl e, p # ps)
         | Inr v \<Rightarrow> (Inr (), v # ps))
      else
        (case edit_phone_loop ps old_number new_number of
           (res, ps') \<Rightarrow> (res, p # ps')))"

definition edit_phone :: "Record \<Rightarrow> pystr \<Rightarrow> pystr \<Rightarrow> (error + unit) \<times> Record" where
  "edit_phone r old_number new_number =
     (case edit_phone_loop (phones r) old_number new_number of
        (res, ps) \<Rightarrow> (res, r\<lparr>phones := ps\<rparr>))"

text \<open>\<open>find_phone\<close> returns the text of the first match, or \<open>None\<close>, and the object.\<close>

fun find_phone_loop :: "pystr list \<Rightarrow> pystr \<Rightarrow> pystr option" where
  "find_phone_loop [] phone_number = None"
| "find_phone_loop (p # ps) phone_number =
     (if p = phone_number then Some p else find_phone_loop ps phone_number)"

definition find_phone :: "Record \<Rightarrow> pystr \<Rightarrow> pystr option \<times> Record" where
  "find_phone r phone_number = (find_phone_loop (phones r) phone_number, r)"

section \<open>Birthday\<close>

text \<open>
  \<open>datetime.strptime(value, "%d.%m.%Y")\<close>. The format is compiled to the regular
  expression (with the groups of \<open>_strptime.TimeRE\<close>)

  \<^verbatim>\<open>(?P<d>3[0-1]|[1-2]\d|0[1-9]|[1-9]| [1-9])\.(?P<m>1[0-2]|0[1-9]|[1-9])\.(?P<Y>\d\d\d\d)\<close>

  which is matched at the start of the text; the match must end at the end of the text
  ("unconverted data remains" otherwise). Each group is a function from the text to the
  list of its possible matches, as pairs of the matched text and the rest, in the order
  of the alternatives; the matcher backtracks through them and the first complete match
  is the result. \<open>\d\<close> is any Unicode decimal digit.
\<close>

definition between :: "nat \<Rightarrow> nat \<Rightarrow> nat \<Rightarrow> bool" where
  "between lo hi c = (lo \<le> c \<and> c \<le> hi)"

definition alt2 :: "(nat \<Rightarrow> bool) \<Rightarrow> (nat \<Rightarrow> bool) \<Rightarrow> pystr \<Rightarrow> (pystr \<times> pystr) list" where
  "alt2 p q s =
     (case s of
        c1 # c2 # rest \<Rightarrow> if p c1 \<and> q c2 then [([c1, c2], rest)] else []
      | _ \<Rightarrow> [])"

definition alt1 :: "(nat \<Rightarrow> bool) \<Rightarrow> pystr \<Rightarrow> (pystr \<times> pystr) list" where
  "alt1 p s = (case s of c1 # rest \<Rightarrow> if p c1 then [([c1], rest)] else [] | _ \<Rightarrow> [])"

definition group_d :: "pystr \<Rightarrow> (pystr \<times> pystr) list" where
  "group_d s =
     alt2 (\<lambda>c. c = 51) (between 48 49) s @
     alt2 (between 49 50) isdecimal_char s @
     alt2 (\<lambda>c. c = 48) (between 49 57) s @
     alt1 (between 49 57) s @
     alt2 (\<lambda>c. c = 32) (between 49 57) s"

definition group_m :: "pystr \<Rightarrow> (pystr \<times> pystr) list" where
  "group_m s =
     alt2 (\<lambda>c. c = 49) (between 48 50) s @
     alt2 (\<lambda>c. c = 48) (between 49 57) s @
     alt1 (between 49 57) s"

definition group_Y :: "pystr \<Rightarrow> (pystr \<times> pystr) list" where
  "group_Y s =
     (case s of
        c1 # c2 # c3 # c4 # rest \<Rightarrow>
          if isdecimal_char c1 \<and> isdecimal_char c2 \<and> isdecimal_char c3 \<and> isdecimal_char c4
          then [([c1, c2, c3, c4], rest)] else []
      | _ \<Rightarrow> [])"

definition dot :: "pystr \<Rightarrow> pystr list" where
  "dot s = (case s of c # rest \<Rightarrow> if c = 46 then [rest] else [] | _ \<Rightarrow> [])"

definition format_regex_match :: "pystr \<Rightarrow> (pystr \<times> pystr \<times> pystr \<times> pystr) list" where
  "format_regex_match s =
     concat (map (\<lambda>(d, r1).
       concat (map (\<lambda>r2.
         concat (map (\<lambda>(m, r3).
           concat (map (\<lambda>r4.
             map (\<lambda>(y, r5). (d, m, y, r5)) (group_Y r4))
           (dot r3)))
         (group_m r2)))
       (dot r1)))
     (group_d s))"

text \<open>
  \<open>int(text)\<close> on the text of a group: a run of decimal digits, after a space for the
  last alternative of the day (\<open>int\<close> ignores surrounding whitespace). The value of a
  decimal digit is its offset in its run of ten.
\<close>

definition decimal_value :: "nat \<Rightarrow> int" where
  "decimal_value c =
     (case List.find (\<lambda>(lo, hi). lo \<le> c \<and> c \<le> hi) decimal_ranges of
        Some (lo, hi) \<Rightarrow> int ((c - lo) mod 10)
      | None \<Rightarrow> 0)"

fun digits_value :: "int \<Rightarrow> pystr \<Rightarrow> int" where
  "digits_value acc [] = acc"
| "digits_value acc (c # cs) = digits_value (acc * 10 + decimal_value c) cs"

definition py_int :: "pystr \<Rightarrow> int" where
  "py_int s = digits_value 0 (dropWhile (\<lambda>c. c = 32) s)"

text \<open>
  \<open>strptime\<close> raises \<open>ValueError\<close> when the text does not match, when data remains after
  the match, and (from the \<open>date\<close> constructor) when the fields are no calendar date.
\<close>

definition strptime :: "pystr \<Rightarrow> error + date" where
  "strptime s =
     (case format_regex_match s of
        [] \<Rightarrow> Inl DateValueError
      | (d, m, y, rest) # _ \<Rightarrow>
          if rest \<noteq> [] then Inl DateValueError
          else date_new (py_int y) (py_int m) (py_int d))"

text \<open>Which exceptions are instances of \<open>ValueError\<close>, for \<open>except ValueError\<close>.\<close>

definition is_ValueError :: "error \<Rightarrow> bool" where
  "is_ValueError e = (e \<noteq> DateOverflowError)"

definition Birthday :: "pystr \<Rightarrow> error + date" where
  "Birthday v =
     (case strptime v of
        Inl e \<Rightarrow> if is_ValueError e then Inl InvalidDateFormat else Inl e
      | Inr parsed \<Rightarrow> Inr parsed)"

definition add_birthday :: "Record \<Rightarrow> pystr \<Rightarrow> (error + unit) \<times> Record" where
  "add_birthday r birthday_str =
     (case Birthday birthday_str of
        Inl e \<Rightarrow> (Inl e, r)
      | Inr b \<Rightarrow> (Inr (), r\<lparr>birthday := Some b\<rparr>))"

text \<open>
  \<open>strftime("%Y.%m.%d")\<close>: the year in four digits, the month and the day in two, zero
  padded, as the \<open>datetime\<close> documentation gives them. (For a year below 1000 the C
  library of the platform decides whether \<open>%Y\<close> is padded; from 1000 on all agree.)
\<close>

definition digit_char :: "int \<Rightarrow> nat" where
  "digit_char k = 48 + nat (k mod 10)"

definition strftime_Ymd :: "date \<Rightarrow> pystr" where
  "strftime_Ymd d =
     [digit_char (year d div 1000), digit_char (year d div 100), digit_char (year d div 10),
      digit_char (year d), 46,
      digit_char (month d div 10), digit_char (month d), 46,
      digit_char (day d div 10), digit_char (day d)]"

section \<open>AddressBook\<close>

text \<open>
  Records are objects: the program holds references to them, and a record found in the
  book is mutated through its reference. The state is the store of all \<open>Record\<close> objects
  created so far (\<open>heap\<close>, by address; the addresses below \<open>alloc\<close> are in use) and the
  book's dictionary \<open>data\<close>, from names to references, as the list of its items in
  insertion order.
\<close>

record state =
  heap :: "nat \<Rightarrow> Record"
  alloc :: nat
  data :: "(pystr \<times> nat) list"

definition empty_state :: state where
  "empty_state = \<lparr>heap = (\<lambda>a. Record_init []), alloc = 0, data = []\<rparr>"

text \<open>\<open>Record(name)\<close> creates an object and returns its reference.\<close>

definition Record_new :: "pystr \<Rightarrow> state \<Rightarrow> nat \<times> state" where
  "Record_new n st =
     (alloc st, st\<lparr>heap := (heap st)(alloc st := Record_init n), alloc := Suc (alloc st)\<rparr>)"

text \<open>A call of a mutating method on the object at a reference.\<close>

definition call :: "nat \<Rightarrow> (Record \<Rightarrow> (error + unit) \<times> Record) \<Rightarrow> state \<Rightarrow> (error + unit) \<times> state" where
  "call a m st = (case m (heap st a) of (res, r') \<Rightarrow> (res, st\<lparr>heap := (heap st)(a := r')\<rparr>))"

text \<open>
  The dictionary operations: \<open>d[k] = v\<close> keeps the position of a key that is present
  and appends a new one; \<open>d.get(k)\<close>; \<open>del d[k]\<close>.
\<close>

fun dict_set :: "'k \<Rightarrow> 'v \<Rightarrow> ('k \<times> 'v) list \<Rightarrow> ('k \<times> 'v) list" where
  "dict_set k v [] = [(k, v)]"
| "dict_set k v ((k', v') # kvs) =
     (if k' = k then (k, v) # kvs else (k', v') # dict_set k v kvs)"

fun dict_get :: "('k \<times> 'v) list \<Rightarrow> 'k \<Rightarrow> 'v option" where
  "dict_get [] k = None"
| "dict_get ((k', v') # kvs) k = (if k' = k then Some v' else dict_get kvs k)"

fun dict_del :: "'k \<Rightarrow> ('k \<times> 'v) list \<Rightarrow> ('k \<times> 'v) list" where
  "dict_del k [] = []"
| "dict_del k ((k', v') # kvs) = (if k' = k then kvs else (k', v') # dict_del k kvs)"

definition add_record :: "nat \<Rightarrow> state \<Rightarrow> state" where
  "add_record a st = st\<lparr>data := dict_set (name (heap st a)) a (data st)\<rparr>"

text \<open>The queries return their result and the state as they leave it.\<close>

definition find_record :: "pystr \<Rightarrow> state \<Rightarrow> nat option \<times> state" where
  "find_record n st = (dict_get (data st) n, st)"

definition delete :: "pystr \<Rightarrow> state \<Rightarrow> state" where
  "delete n st = (if n \<in> set (map fst (data st)) then st\<lparr>data := dict_del n (data st)\<rparr> else st)"

text \<open>
  \<open>get_upcoming_birthdays\<close>, with \<open>today\<close> (the source reads \<open>date.today()\<close>) as a
  parameter. \<open>except_ValueError x h\<close> is \<open>try: x except ValueError: h\<close>.
\<close>

definition except_ValueError :: "error + 'a \<Rightarrow> error + 'a \<Rightarrow> error + 'a" where
  "except_ValueError x h = (case x of Inl e \<Rightarrow> if is_ValueError e then h else Inl e | Inr v \<Rightarrow> Inr v)"

text \<open>Lines 108 to 118: the birthday in this year, or in the next if that has passed.\<close>

definition project :: "date \<Rightarrow> date \<Rightarrow> error + date" where
  "project today bday =
     (case except_ValueError (replace_year bday (year today)) (date_new (year today) 2 28) of
        Inl e \<Rightarrow> Inl e
      | Inr bday_this_year \<Rightarrow>
          if date_less bday_this_year today then
            except_ValueError (replace_year bday (year today + 1))
              (date_new (year today + 1) 2 28)
          else Inr bday_this_year)"

text \<open>
  Lines 120 to 126: the window test on the projected date, then the move of a Saturday
  or Sunday to the Monday; \<open>None\<close> when the record is not listed.
\<close>

definition congratulation :: "date \<Rightarrow> date \<Rightarrow> error + date option" where
  "congratulation today bday_this_year =
     (let days_ahead = days_between bday_this_year today
      in if 0 \<le> days_ahead \<and> days_ahead \<le> 7 then
           (case (if weekday bday_this_year = 5 then add_days bday_this_year 2
                  else if weekday bday_this_year = 6 then add_days bday_this_year 1
                  else Inr bday_this_year) of
              Inl e \<Rightarrow> Inl e
            | Inr d \<Rightarrow> Inr (Some d))
         else Inr None)"

text \<open>
  The body of the loop for one record: \<open>None\<close> when the record adds no entry, else the
  entry, the pair of the name and the formatted date.
\<close>

definition upcoming_entry :: "date \<Rightarrow> Record \<Rightarrow> error + (pystr \<times> pystr) option" where
  "upcoming_entry today r =
     (case birthday r of
        None \<Rightarrow> Inr None
      | Some bday \<Rightarrow>
          (case project today bday of
             Inl e \<Rightarrow> Inl e
           | Inr bday_this_year \<Rightarrow>
               (case congratulation today bday_this_year of
                  Inl e \<Rightarrow> Inl e
                | Inr None \<Rightarrow> Inr None
                | Inr (Some d) \<Rightarrow> Inr (Some (name r, strftime_Ymd d)))))"

fun upcoming_loop ::
  "date \<Rightarrow> Record list \<Rightarrow> (pystr \<times> pystr) list \<Rightarrow> error + (pystr \<times> pystr) list" where
  "upcoming_loop today [] upcoming = Inr upcoming"
| "upcoming_loop today (r # rs) upcoming =
     (case upcoming_entry today r of
        Inl e \<Rightarrow> Inl e
      | Inr None \<Rightarrow> upcoming_loop today rs upcoming
      | Inr (Some entry) \<Rightarrow> upcoming_loop today rs (upcoming @ [entry]))"

definition get_upcoming_birthdays ::
  "date \<Rightarrow> state \<Rightarrow> (error + (pystr \<times> pystr) list) \<times> state" where
  "get_upcoming_birthdays today st =
     (upcoming_loop today (map (\<lambda>(k, a). heap st a) (data st)) [], st)"

text \<open>
  The states a run can reach from the empty book: each step creates a record, calls a
  mutating method on a record that exists (the step is taken whether the method returns
  or raises), adds a record that exists to the book, or deletes a name.
\<close>

inductive reachable :: "state \<Rightarrow> bool" where
  r_empty: "reachable empty_state"
| r_Record: "reachable st \<Longrightarrow> reachable (snd (Record_new n st))"
| r_add_phone: "reachable st \<Longrightarrow> a < alloc st \<Longrightarrow>
    reachable (snd (call a (\<lambda>r. add_phone r t) st))"
| r_remove_phone: "reachable st \<Longrightarrow> a < alloc st \<Longrightarrow>
    reachable (snd (call a (\<lambda>r. remove_phone r t) st))"
| r_edit_phone: "reachable st \<Longrightarrow> a < alloc st \<Longrightarrow>
    reachable (snd (call a (\<lambda>r. edit_phone r t t') st))"
| r_add_birthday: "reachable st \<Longrightarrow> a < alloc st \<Longrightarrow>
    reachable (snd (call a (\<lambda>r. add_birthday r t) st))"
| r_add_record: "reachable st \<Longrightarrow> a < alloc st \<Longrightarrow> reachable (add_record a st)"
| r_delete: "reachable st \<Longrightarrow> reachable (delete n st)"

section \<open>Example states\<close>

text \<open>
  A book with one entry, John, whose record is object 0; object 1 is a second record of
  the same name, with other phones and a birthday, not in the book.
\<close>

definition two_johns :: state where
  "two_johns =
     \<lparr>heap = (\<lambda>a. Record_init [])
        (0 := \<lparr>name = ascii ''John'', phones = [ascii ''1234567890''], birthday = None\<rparr>,
         1 := \<lparr>name = ascii ''John'', phones = [ascii ''5555555555''],
                birthday = Some \<lparr>year = 1990, month = 6, day = 16\<rparr>\<rparr>),
      alloc = 2,
      data = [(ascii ''John'', 0)]\<rparr>"

section \<open>The invariant of the book\<close>

text \<open>
  Every key of \<open>data\<close> is the name of the record it refers to, and every reference in
  \<open>data\<close> is to an object that exists.
\<close>

definition book_inv :: "state \<Rightarrow> bool" where
  "book_inv st = (\<forall>(k, a) \<in> set (data st). k = name (heap st a) \<and> a < alloc st)"

section \<open>Example books\<close>


definition leapling :: Record where
  "leapling = \<lparr>name = ascii ''Leap'', phones = [],
           birthday = Some \<lparr>year = 2000, month = 2, day = 29\<rparr>\<rparr>"

definition alice_bob :: state where
  "alice_bob =
     \<lparr>heap = (\<lambda>a. Record_init [])
        (0 := \<lparr>name = ascii ''Alice'', phones = [],
                birthday = Some \<lparr>year = 1990, month = 6, day = 14\<rparr>\<rparr>,
         1 := \<lparr>name = ascii ''Bob'', phones = [],
                birthday = Some \<lparr>year = 1985, month = 6, day = 11\<rparr>\<rparr>),
      alloc = 2,
      data = [(ascii ''Alice'', 0), (ascii ''Bob'', 1)]\<rparr>"

definition leap_book :: state where
  "leap_book = \<lparr>heap = (\<lambda>a. leapling), alloc = 1, data = [(ascii ''Leap'', 0)]\<rparr>"

section \<open>The texts a birthday is parsed from\<close>

text \<open>
  The claim's format, in the spec's words: \<open>DD.MM.YYYY\<close>, a two-digit day, a dot, a
  two-digit month, a dot, a four-digit year, all digits ASCII.
\<close>

definition spec_DD_MM_YYYY :: "pystr \<Rightarrow> bool" where
  "spec_DD_MM_YYYY s =
     (length s = 10 \<and> s ! 2 = 46 \<and> s ! 5 = 46 \<and>
      list_all ascii_digit (take 2 s) \<and> list_all ascii_digit (take 2 (drop 3 s)) \<and>
      list_all ascii_digit (drop 6 s))"

text \<open>
  The texts the three groups of the format accept: a day is 1 to 9 in one character, or
  in two after a zero or a space, or 10 to 31 (the second digit of 10 to 29 any decimal
  digit); a month is 1 to 9 in one character or after a zero, or 10 to 12; a year is
  four decimal digits.
\<close>

fun day_text :: "pystr \<Rightarrow> bool" where
  "day_text [c] = between 49 57 c"
| "day_text [c1, c2] =
     (c1 = 51 \<and> between 48 49 c2 \<or> between 49 50 c1 \<and> isdecimal_char c2 \<or>
      (c1 = 48 \<or> c1 = 32) \<and> between 49 57 c2)"
| "day_text s = False"

fun month_text :: "pystr \<Rightarrow> bool" where
  "month_text [c] = between 49 57 c"
| "month_text [c1, c2] = (c1 = 49 \<and> between 48 50 c2 \<or> c1 = 48 \<and> between 49 57 c2)"
| "month_text s = False"

definition year_text :: "pystr \<Rightarrow> bool" where
  "year_text s = (length s = 4 \<and> list_all isdecimal_char s)"

section \<open>Properties of the validators and of the record\<close>

lemma ascii_digit_isdigit_char: "ascii_digit c \<Longrightarrow> isdigit_char c"
  by (simp add: ascii_digit_def isdigit_char_def in_ranges_def decimal_ranges_def)

lemma isdigit_length_10: "length v = 10 \<Longrightarrow> isdigit v = list_all isdigit_char v"
  by (auto simp: isdigit_def)

text \<open>
  C1, as the claim states it, fails: ten ARABIC-INDIC DIGIT characters (U+0660 to U+0669)
  are not ASCII digits, and \<open>Phone\<close> accepts them, since \<open>str.isdigit\<close> is true of every
  Unicode digit.
\<close>

theorem Phone_ascii_only_counterexample:
  "\<not> list_all ascii_digit [1632, 1633, 1634, 1635, 1636, 1637, 1638, 1639, 1640, 1641] \<and>
   Phone [1632, 1633, 1634, 1635, 1636, 1637, 1638, 1639, 1640, 1641] =
     Inr [1632, 1633, 1634, 1635, 1636, 1637, 1638, 1639, 1640, 1641]"
  by (simp add: ascii_digit_def Phone_def isdigit_def isdigit_char_def in_ranges_def
      decimal_ranges_def)

text \<open>
  C1 (amended): \<open>Phone\<close> succeeds exactly on the texts of length 10 whose characters all
  satisfy \<open>str.isdigit\<close> (the Unicode digits, among them the ASCII digits); it then
  stores the text unchanged. Every other text fails with \<open>InvalidPhone\<close>. In particular
  every text of exactly ten ASCII digits succeeds and round-trips, and every text of
  another length or with a character that is no Unicode digit fails.
\<close>

theorem Phone_validation:
  "(Phone v = Inr v \<or> Phone v = Inl InvalidPhone) \<and>
   (Phone v = Inr v \<longleftrightarrow> length v = 10 \<and> list_all isdigit_char v) \<and>
   (length v = 10 \<and> list_all ascii_digit v \<longrightarrow> Phone v = Inr v) \<and>
   (length v \<noteq> 10 \<or> \<not> list_all isdigit_char v \<longrightarrow> Phone v = Inl InvalidPhone)"
proof -
  have asc: "list_all ascii_digit v \<Longrightarrow> list_all isdigit_char v"
    by (induction v) (auto simp: ascii_digit_isdigit_char)
  have dig: "length v = 10 \<Longrightarrow> isdigit v = list_all isdigit_char v"
    by (rule isdigit_length_10)
  show ?thesis
    using asc dig by (auto simp: Phone_def)
qed

theorem Phone_validation_witness:
  "Phone (ascii ''0501234567'') = Inr (ascii ''0501234567'') \<and>
   Phone (ascii ''050-123-45'') = Inl InvalidPhone \<and>
   Phone (ascii ''12345'') = Inl InvalidPhone"
proof -
  have a: "length (ascii ''0501234567'') = 10 \<and> list_all ascii_digit (ascii ''0501234567'')"
    by (simp add: ascii_def ascii_digit_def)
  have b: "\<not> list_all isdigit_char (ascii ''050-123-45'')"
    by (simp add: ascii_def isdigit_char_def in_ranges_def decimal_ranges_def
        other_digit_ranges_def)
  have c: "length (ascii ''12345'') \<noteq> 10"
    by (simp add: ascii_def)
  show ?thesis
    using a b c Phone_validation [of "ascii ''0501234567''"]
      Phone_validation [of "ascii ''050-123-45''"] Phone_validation [of "ascii ''12345''"]
    by blast
qed

subsection \<open>edit_phone\<close>

lemma edit_phone_loop_absent:
  "old \<notin> set ps \<Longrightarrow> edit_phone_loop ps old new = (Inl PhoneNotFound, ps)"
  by (induction ps) auto

lemma edit_phone_loop_invalid:
  "Phone new = Inl e \<Longrightarrow> old \<in> set ps \<Longrightarrow> edit_phone_loop ps old new = (Inl e, ps)"
  by (induction ps) auto

lemma edit_phone_loop_found:
  "Phone new = Inr v \<Longrightarrow> old \<in> set ps \<Longrightarrow>
   \<exists>i < length ps. ps ! i = old \<and> (\<forall>j < i. ps ! j \<noteq> old) \<and>
     edit_phone_loop ps old new = (Inr (), ps[i := v])"
proof (induction ps)
  case Nil
  then show ?case by simp
next
  case (Cons p ps)
  show ?case
  proof (cases "p = old")
    case True
    with Cons.prems have "edit_phone_loop (p # ps) old new = (Inr (), (p # ps)[0 := v])"
      by simp
    with True show ?thesis by (intro exI [of _ 0]) simp
  next
    case False
    with Cons obtain i where i: "i < length ps" "ps ! i = old" "\<forall>j < i. ps ! j \<noteq> old"
      "edit_phone_loop ps old new = (Inr (), ps[i := v])"
      by auto
    have "\<forall>j < Suc i. (p # ps) ! j \<noteq> old"
      using False i(3) by (auto simp: nth_Cons split: nat.splits)
    with i False show ?thesis
      by (intro exI [of _ "Suc i"]) simp
  qed
qed

text \<open>
  C5, as the claim states it, fails in its last clause: with an invalid \<open>new_text\<close> and no
  phone equal to \<open>old_text\<close>, the loop ends without ever building \<open>Phone(new_number)\<close>,
  and the call fails with \<open>PhoneNotFound\<close>, not \<open>InvalidPhone\<close>.
\<close>

theorem edit_phone_invalid_new_counterexample:
  "Phone (ascii ''12ab'') = Inl InvalidPhone \<and>
   edit_phone \<lparr>name = ascii ''John'', phones = [ascii ''1234567890''], birthday = None\<rparr>
       (ascii ''5555555555'') (ascii ''12ab'') =
     (Inl PhoneNotFound,
      \<lparr>name = ascii ''John'', phones = [ascii ''1234567890''], birthday = None\<rparr>)"
  by (simp add: edit_phone_def Phone_def isdigit_def isdigit_char_def in_ranges_def
      decimal_ranges_def other_digit_ranges_def ascii_def)

text \<open>
  C5 (amended): when some phone of the record equals \<open>old_text\<close> and \<open>new_text\<close> is a
  valid phone, the first such phone is replaced in place (same position, same number of
  phones, every other field as before); when no phone equals \<open>old_text\<close> the call fails
  with \<open>PhoneNotFound\<close>, whatever \<open>new_text\<close> is, and the record is unchanged; when some
  phone equals \<open>old_text\<close> and \<open>new_text\<close> is invalid the call fails with \<open>InvalidPhone\<close>
  and the record is unchanged.
\<close>

theorem edit_phone_cases:
  "(old \<in> set (phones r) \<and> Phone new = Inr new \<longrightarrow>
      (\<exists>i < length (phones r). phones r ! i = old \<and> (\<forall>j < i. phones r ! j \<noteq> old) \<and>
         edit_phone r old new = (Inr (), r\<lparr>phones := (phones r)[i := new]\<rparr>))) \<and>
   (old \<notin> set (phones r) \<longrightarrow> edit_phone r old new = (Inl PhoneNotFound, r)) \<and>
   (old \<in> set (phones r) \<and> Phone new = Inl InvalidPhone \<longrightarrow>
      edit_phone r old new = (Inl InvalidPhone, r))"
proof (intro conjI impI)
  assume a: "old \<in> set (phones r) \<and> Phone new = Inr new"
  then obtain i where "i < length (phones r)" "phones r ! i = old"
    "\<forall>j < i. phones r ! j \<noteq> old"
    "edit_phone_loop (phones r) old new = (Inr (), (phones r)[i := new])"
    using edit_phone_loop_found [of new new old "phones r"] by blast
  then show "\<exists>i < length (phones r). phones r ! i = old \<and> (\<forall>j < i. phones r ! j \<noteq> old) \<and>
      edit_phone r old new = (Inr (), r\<lparr>phones := (phones r)[i := new]\<rparr>)"
    by (auto simp: edit_phone_def)
next
  assume "old \<notin> set (phones r)"
  then show "edit_phone r old new = (Inl PhoneNotFound, r)"
    by (simp add: edit_phone_def edit_phone_loop_absent)
next
  assume "old \<in> set (phones r) \<and> Phone new = Inl InvalidPhone"
  then show "edit_phone r old new = (Inl InvalidPhone, r)"
    by (simp add: edit_phone_def edit_phone_loop_invalid)
qed

theorem edit_phone_cases_witness:
  "edit_phone
       \<lparr>name = ascii ''John'', phones = [ascii ''5555555555'', ascii ''1234567890''],
        birthday = None\<rparr>
       (ascii ''1234567890'') (ascii ''12ab'') =
     (Inl InvalidPhone,
      \<lparr>name = ascii ''John'', phones = [ascii ''5555555555'', ascii ''1234567890''],
       birthday = None\<rparr>) \<and>
   edit_phone
       \<lparr>name = ascii ''John'', phones = [ascii ''5555555555'', ascii ''1234567890''],
        birthday = None\<rparr>
       (ascii ''7777777777'') (ascii ''0000000000'') =
     (Inl PhoneNotFound,
      \<lparr>name = ascii ''John'', phones = [ascii ''5555555555'', ascii ''1234567890''],
       birthday = None\<rparr>) \<and>
   (\<exists>i < 2. edit_phone
       \<lparr>name = ascii ''John'', phones = [ascii ''5555555555'', ascii ''1234567890''],
        birthday = None\<rparr>
       (ascii ''1234567890'') (ascii ''0000000000'') =
     (Inr (),
      \<lparr>name = ascii ''John'',
       phones = [ascii ''5555555555'', ascii ''1234567890''][i := ascii ''0000000000''],
       birthday = None\<rparr>))"
proof -
  let ?r = "\<lparr>name = ascii ''John'', phones = [ascii ''5555555555'', ascii ''1234567890''],
        birthday = None\<rparr>"
  have bad: "Phone (ascii ''12ab'') = Inl InvalidPhone"
    by (simp add: Phone_def ascii_def)
  have good: "Phone (ascii ''0000000000'') = Inr (ascii ''0000000000'')"
    by (simp add: Phone_def isdigit_def isdigit_char_def in_ranges_def decimal_ranges_def
        ascii_def)
  have mem: "ascii ''1234567890'' \<in> set (phones ?r)"
    by simp
  have nomem: "ascii ''7777777777'' \<notin> set (phones ?r)"
    by (simp add: ascii_def)
  have len: "length (phones ?r) = 2"
    by simp
  from edit_phone_cases [of "ascii ''1234567890''" ?r "ascii ''12ab''"] bad mem
  have 1: "edit_phone ?r (ascii ''1234567890'') (ascii ''12ab'') = (Inl InvalidPhone, ?r)"
    by blast
  from edit_phone_cases [of "ascii ''7777777777''" ?r "ascii ''0000000000''"] nomem
  have 2: "edit_phone ?r (ascii ''7777777777'') (ascii ''0000000000'') = (Inl PhoneNotFound, ?r)"
    by blast
  from edit_phone_cases [of "ascii ''1234567890''" ?r "ascii ''0000000000''"] good mem
  obtain i where "i < length (phones ?r)"
    "edit_phone ?r (ascii ''1234567890'') (ascii ''0000000000'') =
       (Inr (), ?r\<lparr>phones := (phones ?r)[i := ascii ''0000000000'']\<rparr>)"
    by blast
  then have 3: "\<exists>i < 2. edit_phone ?r (ascii ''1234567890'') (ascii ''0000000000'') =
     (Inr (), \<lparr>name = ascii ''John'',
       phones = [ascii ''5555555555'', ascii ''1234567890''][i := ascii ''0000000000''],
       birthday = None\<rparr>)"
    by (intro exI [of _ i]) simp
  from 1 2 3 show ?thesis by blast
qed

section \<open>Calendar arithmetic\<close>

lemma div_quot: 
  fixes q r k :: int
  assumes "0 \<le> r" "r < k"
  shows "(k * q + r) div k = q" and "(k * q + r) mod k = r"
  using assms by simp_all

lemma dby_decomp:
  fixes a b c e :: int
  assumes "0 \<le> b" "b \<le> 3" "0 \<le> c" "c \<le> 24" "0 \<le> e" "e \<le> 3"
  shows "days_before_year (400 * a + 100 * b + 4 * c + e + 1) =
    146097 * a + 36524 * b + 1461 * c + 365 * e"
proof -
  have 1: "(400 * a + 100 * b + 4 * c + e) div 4 = 100 * a + 25 * b + c"
    using div_quot(1) [of e 4 "100 * a + 25 * b + c"] assms by (simp add: algebra_simps)
  have 2: "(400 * a + 100 * b + 4 * c + e) div 100 = 4 * a + b"
    using div_quot(1) [of "4 * c + e" 100 "4 * a + b"] assms by (simp add: algebra_simps)
  have 3: "(400 * a + 100 * b + 4 * c + e) div 400 = a"
    using div_quot(1) [of "100 * b + 4 * c + e" 400 a] assms by (simp add: algebra_simps)
  show ?thesis
    unfolding days_before_year_def using 1 2 3 by simp
qed

lemma leap_decomp:
  fixes a b c e :: int
  assumes "0 \<le> b" "b \<le> 3" "0 \<le> c" "c \<le> 24" "0 \<le> e" "e \<le> 3"
  shows "is_leap (400 * a + 100 * b + 4 * c + e + 1) = (e = 3 \<and> (c \<noteq> 24 \<or> b = 3))"
proof (cases "e = 3")
  case False
  then have "(400 * a + 100 * b + 4 * c + e + 1) mod 4 = e + 1"
    using div_quot(2) [of "e + 1" 4 "100 * a + 25 * b + c"] assms by (simp add: algebra_simps)
  with False assms show ?thesis by (simp add: is_leap_def)
next
  case e3: True
  have m4: "(400 * a + 100 * b + 4 * c + e + 1) mod 4 = 0"
    using div_quot(2) [of 0 4 "100 * a + 25 * b + c + 1"] e3 by (simp add: algebra_simps)
  show ?thesis
  proof (cases "c = 24")
    case False
    then have "(400 * a + 100 * b + 4 * c + e + 1) mod 100 = 4 * c + 4"
      using div_quot(2) [of "4 * c + 4" 100 "4 * a + b"] assms e3 by (simp add: algebra_simps)
    with False assms e3 m4 show ?thesis by (simp add: is_leap_def)
  next
    case c24: True
    have m100: "(400 * a + 100 * b + 4 * c + e + 1) mod 100 = 0"
      using div_quot(2) [of 0 100 "4 * a + b + 1"] e3 c24 by (simp add: algebra_simps)
    have "(400 * a + 100 * b + 4 * c + e + 1) mod 400 = (if b = 3 then 0 else 100 * b + 100)"
    proof (cases "b = 3")
      case True
      then show ?thesis
        using div_quot(2) [of 0 400 "a + 1"] e3 c24 by (simp add: algebra_simps)
    next
      case False
      then show ?thesis
        using div_quot(2) [of "100 * b + 100" 400 a] e3 c24 assms by (simp add: algebra_simps)
    qed
    with c24 e3 m4 m100 assms show ?thesis by (simp add: is_leap_def)
  qed
qed

lemma ord_decomp:
  fixes n0 :: int
  assumes "0 \<le> n0"
  defines "a \<equiv> n0 div 146097" and "r400 \<equiv> n0 mod 146097"
  defines "b \<equiv> r400 div 36524" and "r100 \<equiv> r400 mod 36524"
  defines "c \<equiv> r100 div 1461" and "r4 \<equiv> r100 mod 1461"
  defines "e \<equiv> r4 div 365" and "r \<equiv> r4 mod 365"
  shows "n0 = 146097 * a + r400 \<and> r400 = 36524 * b + r100 \<and> r100 = 1461 * c + r4 \<and>
     r4 = 365 * e + r \<and> 0 \<le> a \<and> 0 \<le> b \<and> 0 \<le> c \<and> 0 \<le> e \<and> 0 \<le> r \<and> r < 365 \<and>
     r4 < 1461 \<and> r100 < 36524 \<and> r400 < 146097"
  unfolding a_def r400_def b_def r100_def c_def r4_def e_def r_def
  using assms(1) by (simp add: pos_imp_zdiv_nonneg_iff)

lemma month_day_of_offset_ok:
  fixes n :: int
  assumes "0 \<le> n" "n < 365 + (if leap then 1 else 0)"
    and "month_day_of_offset leap n = (m, d)"
  shows "1 \<le> m \<and> m \<le> 12 \<and> 1 \<le> d \<and>
     d \<le> (if m = 2 \<and> leap then 29 else DAYS_IN_MONTH ! nat m) \<and>
     DAYS_BEFORE_MONTH ! nat m + (if m > 2 \<and> leap then 1 else 0) + d = n + 1"
proof -
  define k where "k = (n + 50) div 32"
  have n366: "n < 366" using assms(2) by (simp split: if_splits)
  have "1 \<le> k \<and> k \<le> 12" using assms(1) n366 unfolding k_def by presburger
  then have kk: "k = 1 \<or> k = 2 \<or> k = 3 \<or> k = 4 \<or> k = 5 \<or> k = 6 \<or> k = 7 \<or> k = 8
    \<or> k = 9 \<or> k = 10 \<or> k = 11 \<or> k = 12" by presburger
  have bounds: "32 * k - 50 \<le> n \<and> n < 32 * k - 18" unfolding k_def by presburger
  show ?thesis
    using assms bounds kk unfolding month_day_of_offset_def Let_def k_def [symmetric]
    by (elim disjE) (auto simp: DAYS_IN_MONTH_def DAYS_BEFORE_MONTH_def split: if_splits)
qed

lemma ord2ymd_regular:
  fixes a b c e r :: int
  assumes b: "0 \<le> b" "b \<le> 3" and c: "0 \<le> c" "c \<le> 24" and e: "0 \<le> e" "e \<le> 3"
    and r: "0 \<le> r" "r < 365"
    and md: "month_day_of_offset (e = 3 \<and> (c \<noteq> 24 \<or> b = 3)) r = (m, d)"
  shows "1 \<le> m \<and> m \<le> 12 \<and> 1 \<le> d \<and>
     d \<le> days_in_month (400 * a + 100 * b + 4 * c + e + 1) m \<and>
     ymd2ord (400 * a + 100 * b + 4 * c + e + 1) m d =
       146097 * a + 36524 * b + 1461 * c + 365 * e + r + 1"
proof -
  let ?y = "400 * a + 100 * b + 4 * c + e + 1"
  let ?leap = "e = 3 \<and> (c \<noteq> 24 \<or> b = 3)"
  have leap: "is_leap ?y = ?leap" using b c e by (rule leap_decomp)
  have dby: "days_before_year ?y = 146097 * a + 36524 * b + 1461 * c + 365 * e"
    using b c e by (rule dby_decomp)
  have "r < 365 + (if ?leap then 1 else 0)" using r by simp
  from month_day_of_offset_ok [OF r(1) this md]
  have *: "1 \<le> m \<and> m \<le> 12 \<and> 1 \<le> d \<and>
     d \<le> (if m = 2 \<and> ?leap then 29 else DAYS_IN_MONTH ! nat m) \<and>
     DAYS_BEFORE_MONTH ! nat m + (if m > 2 \<and> ?leap then 1 else 0) + d = r + 1" .
  then show ?thesis
    unfolding ymd2ord_def days_in_month_def days_before_month_def leap dby by simp
qed

lemma ymd2ord_dec31:
  fixes a b c :: int
  assumes "0 \<le> b" "b \<le> 3" "0 \<le> c" "c \<le> 24" "c \<noteq> 24 \<or> b = 3"
  shows "ymd2ord (400 * a + 100 * b + 4 * c + 4) 12 31 =
     146097 * a + 36524 * b + 1461 * c + 1461"
proof -
  have "is_leap (400 * a + 100 * b + 4 * c + 3 + 1)"
    using leap_decomp [of b c 3 a] assms by simp
  moreover have "days_before_year (400 * a + 100 * b + 4 * c + 3 + 1) =
      146097 * a + 36524 * b + 1461 * c + 365 * 3"
    using dby_decomp [of b c 3 a] assms by simp
  moreover have "400 * a + 100 * b + 4 * c + 4 = 400 * a + 100 * b + 4 * c + 3 + 1"
    by simp
  ultimately show ?thesis
    by (simp only: ymd2ord_def days_before_month_def DAYS_BEFORE_MONTH_def) simp
qed

lemma ord2ymd_ok:
  assumes n: "1 \<le> n" and res: "ord2ymd n = (y, m, d)"
  shows "1 \<le> y \<and> 1 \<le> m \<and> m \<le> 12 \<and> 1 \<le> d \<and> d \<le> days_in_month y m \<and>
     ymd2ord y m d = n \<and> (n \<le> MAXORDINAL \<longrightarrow> y \<le> MAXYEAR)"
proof -
  define n0 where "n0 = n - 1"
  define a where "a = n0 div 146097"
  define r400 where "r400 = n0 mod 146097"
  define b where "b = r400 div 36524"
  define r100 where "r100 = r400 mod 36524"
  define c where "c = r100 div 1461"
  define r4 where "r4 = r100 mod 1461"
  define e where "e = r4 div 365"
  define r where "r = r4 mod 365"
  have "0 \<le> n0" using n by (simp add: n0_def)
  from ord_decomp [OF this]
  have dec: "n0 = 146097 * a + r400" "r400 = 36524 * b + r100" "r100 = 1461 * c + r4"
     "r4 = 365 * e + r" "0 \<le> a" "0 \<le> b" "0 \<le> c" "0 \<le> e" "0 \<le> r" "r < 365"
     "r4 < 1461" "r100 < 36524" "r400 < 146097"
    unfolding a_def r400_def b_def r100_def c_def r4_def e_def r_def by simp_all
  have b4: "b \<le> 4" using dec by linarith
  have c24: "c \<le> 24" using dec by linarith
  have e4: "e \<le> 4" using dec by linarith
  let ?y = "a * 400 + 1 + (b * 100 + c * 4 + e)"
  from res have res': "(if e = 4 \<or> b = 4 then (?y - 1, 12, 31)
         else (case month_day_of_offset (e = 3 \<and> (c \<noteq> 24 \<or> b = 3)) r of
                 (m, d) \<Rightarrow> (?y, m, d))) = (y, m, d)"
    unfolding ord2ymd_def Let_def
      n0_def [symmetric] a_def [symmetric] r400_def [symmetric] b_def [symmetric]
      r100_def [symmetric] c_def [symmetric] r4_def [symmetric] e_def [symmetric]
      r_def [symmetric] .
  have yeq: "?y = 400 * a + 100 * b + 4 * c + e + 1" by simp
  have ybound: "n \<le> MAXORDINAL \<longrightarrow> 400 * a + 100 * b + 4 * c + e \<le> 9998"
  proof
    assume "n \<le> MAXORDINAL"
    then have "n0 \<le> 3652058" by (simp add: MAXORDINAL_def n0_def)
    then have a24: "a \<le> 24" using dec by linarith
    show "400 * a + 100 * b + 4 * c + e \<le> 9998"
    proof (cases "a = 24")
      case False
      with a24 have "a \<le> 23" by simp
      then show ?thesis using b4 c24 e4 by linarith
    next
      case a: True
      with \<open>n0 \<le> 3652058\<close> dec have b3: "b \<le> 3" by linarith
      show ?thesis
      proof (cases "b = 3")
        case False
        with b3 have "b \<le> 2" by simp
        then show ?thesis using a c24 e4 by linarith
      next
        case b: True
        show ?thesis
        proof (cases "c = 24")
          case False
          with c24 have "c \<le> 23" by simp
          then show ?thesis using a b e4 by linarith
        next
          case True
          with a b \<open>n0 \<le> 3652058\<close> dec have "e \<le> 2" by linarith
          with a b True show ?thesis by linarith
        qed
      qed
    qed
  qed
  show ?thesis
  proof (cases "e = 4 \<or> b = 4")
    case False
    then have b3: "b \<le> 3" and e3: "e \<le> 3" using b4 e4 by linarith+
    from False res' obtain
      md: "month_day_of_offset (e = 3 \<and> (c \<noteq> 24 \<or> b = 3)) r = (m, d)" and y: "y = ?y"
      by (auto split: prod.splits)
    have "n = 146097 * a + 36524 * b + 1461 * c + 365 * e + r + 1"
      using dec by (simp add: n0_def)
    with ord2ymd_regular [OF dec(6) b3 dec(7) c24 dec(8) e3 dec(9,10) md, of a]
      ybound dec(5,6,7,8) show ?thesis
      unfolding y yeq by (auto simp: MAXYEAR_def)
  next
    case True
    with res' have "y = ?y - 1" and m: "m = 12" and d: "d = 31" by auto
    then have y: "y = 400 * a + 100 * b + 4 * c + e" by simp
    have dim: "days_in_month y 12 = 31"
      by (simp add: days_in_month_def DAYS_IN_MONTH_def)
    have nval: "n = 146097 * a + 36524 * b + 1461 * c + 365 * e + r + 1"
      using dec by (simp add: n0_def)
    have ord: "ymd2ord y 12 31 = n"
    proof (cases "b = 4")
      case b: True
      with dec have "r100 = 0" by linarith
      with dec have "c = 0" "e = 0" "r = 0" by linarith+
      with b nval y show ?thesis
        using ymd2ord_dec31 [of 3 24 a] by (simp add: algebra_simps)
    next
      case False
      with True have e: "e = 4" by simp
      from False b4 have b3: "b \<le> 3" by simp
      from e dec have r0: "r = 0" by linarith
      from e dec have c23: "c \<le> 23" by linarith
      have "y = 400 * a + 100 * b + 4 * c + 4" using y e by simp
      with nval e r0 show ?thesis
        using ymd2ord_dec31 [of b c a] dec(6,7) b3 c23 by (simp add: algebra_simps)
    qed
    have "1 \<le> y" using y dec(5,6,7,8) True by auto
    with dim ord ybound y m d show ?thesis
      by (auto simp: MAXYEAR_def)
  qed
qed

lemma days_before_year_bounds:
  fixes y :: int
  assumes "1 \<le> y" "y \<le> 9999"
  shows "0 \<le> days_before_year y \<and> days_before_year y \<le> 3651694 \<and>
    (y \<le> 9998 \<longrightarrow> days_before_year y \<le> 3651329)"
proof -
  define z where "z = y - 1"
  have z: "0 \<le> z" "z \<le> 9998" using assms by (simp_all add: z_def)
  have q4: "0 \<le> z div 4" "z div 4 \<le> 2499" using z by linarith+
  have q100: "0 \<le> z div 100" "z div 100 \<le> z" using z by linarith+
  have q400: "0 \<le> z div 400" "z div 400 \<le> 24" using z by linarith+
  have dby: "days_before_year y = z * 365 + z div 4 - z div 100 + z div 400"
    by (simp add: days_before_year_def z_def)
  have lo: "0 \<le> days_before_year y"
    unfolding dby using z q4 q100 q400 by linarith
  have hi: "days_before_year y \<le> 3651694"
  proof (cases "z = 9998")
    case True
    then show ?thesis unfolding dby by simp
  next
    case False
    with z have "z \<le> 9997" by simp
    then show ?thesis unfolding dby using q4 q100 q400 by linarith
  qed
  have hi2: "y \<le> 9998 \<longrightarrow> days_before_year y \<le> 3651329"
  proof
    assume "y \<le> 9998"
    then have z7: "z \<le> 9997" by (simp add: z_def)
    show "days_before_year y \<le> 3651329"
    proof (cases "z = 9997")
      case True
      then show ?thesis unfolding dby by simp
    next
      case False
      with z7 have "z \<le> 9996" by simp
      then show ?thesis unfolding dby using q4 q100 q400 by linarith
    qed
  qed
  from lo hi hi2 show ?thesis by blast
qed

lemma day_of_year_bounds:
  assumes "1 \<le> m" "m \<le> 12" "1 \<le> d" "d \<le> days_in_month y m"
  shows "1 \<le> days_before_month y m + d \<and>
     days_before_month y m + d \<le> 365 + (if is_leap y then 1 else 0)"
proof -
  from assms(1,2) have "m = 1 \<or> m = 2 \<or> m = 3 \<or> m = 4 \<or> m = 5 \<or> m = 6 \<or> m = 7 \<or> m = 8
    \<or> m = 9 \<or> m = 10 \<or> m = 11 \<or> m = 12" by presburger
  then show ?thesis
    using assms(3,4)
    by (elim disjE)
      (auto simp: days_before_month_def days_in_month_def DAYS_IN_MONTH_def
        DAYS_BEFORE_MONTH_def split: if_splits)
qed

lemma not_leap_9999: "\<not> is_leap 9999"
  by (simp add: is_leap_def)

lemma toordinal_range:
  assumes "valid_date d"
  shows "1 \<le> toordinal d \<and> toordinal d \<le> MAXORDINAL"
proof -
  from assms have y: "1 \<le> year d" "year d \<le> 9999"
    and md: "1 \<le> month d" "month d \<le> 12" "1 \<le> day d"
      "day d \<le> days_in_month (year d) (month d)"
    by (simp_all add: valid_date_def MINYEAR_def MAXYEAR_def)
  note a = days_before_year_bounds [OF y]
  note b = day_of_year_bounds [OF md]
  show ?thesis
  proof (cases "year d = 9999")
    case True
    with a b not_leap_9999 show ?thesis
      by (simp add: toordinal_def ymd2ord_def MAXORDINAL_def)
  next
    case False
    with y have "year d \<le> 9998" by simp
    with a b show ?thesis
      by (auto simp: toordinal_def ymd2ord_def MAXORDINAL_def split: if_splits)
  qed
qed

lemma date_new_valid: "date_new y m d = Inr x \<Longrightarrow> valid_date x \<and> year x = y \<and> month x = m \<and> day x = d"
  by (auto simp: date_new_def valid_date_def split: if_splits)

lemma date_new_Inr_iff:
  "date_new y m d = Inr x \<longleftrightarrow>
     (valid_date \<lparr>year = y, month = m, day = d\<rparr> \<and> x = \<lparr>year = y, month = m, day = d\<rparr>)"
  by (auto simp: date_new_def valid_date_def)

lemma fromordinal_ok:
  assumes "1 \<le> n" "n \<le> MAXORDINAL"
  shows "\<exists>d. fromordinal n = Inr d \<and> valid_date d \<and> toordinal d = n"
proof -
  obtain y m d where r: "ord2ymd n = (y, m, d)" by (cases "ord2ymd n") auto
  from ord2ymd_ok [OF assms(1) r] assms(2)
  have *: "1 \<le> y" "y \<le> MAXYEAR" "1 \<le> m" "m \<le> 12" "1 \<le> d" "d \<le> days_in_month y m"
    "ymd2ord y m d = n" by simp_all
  then have "fromordinal n = Inr \<lparr>year = y, month = m, day = d\<rparr>"
    by (simp add: fromordinal_def r date_new_def MINYEAR_def)
  with * show ?thesis
    by (simp add: valid_date_def toordinal_def MINYEAR_def)
qed

lemma add_days_ok:
  assumes "1 \<le> toordinal d + k" "toordinal d + k \<le> MAXORDINAL"
  shows "\<exists>d'. add_days d k = Inr d' \<and> valid_date d' \<and> toordinal d' = toordinal d + k"
  using fromordinal_ok [OF assms] assms by (simp add: add_days_def Let_def)

lemma weekday_range: "0 \<le> weekday d \<and> weekday d \<le> 6"
  by (simp add: weekday_def)

lemma keys_dict_set:
  "map fst (dict_set k v kvs) =
     (if k \<in> set (map fst kvs) then map fst kvs else map fst kvs @ [k])"
  by (induction kvs) (auto split: if_splits)

lemma keys_dict_del: "map fst (dict_del k kvs) = remove1 k (map fst kvs)"
  by (induction kvs) (auto split: if_splits)

lemma dict_get_None_iff: "dict_get kvs k = None \<longleftrightarrow> k \<notin> set (map fst kvs)"
  by (induction kvs) (auto split: if_splits)

lemma dict_get_set: "dict_get (dict_set k v kvs) k = Some v"
  by (induction kvs) (auto split: if_splits)

lemma dict_get_set_other: "k' \<noteq> k \<Longrightarrow> dict_get (dict_set k v kvs) k' = dict_get kvs k'"
  by (induction kvs) (auto split: if_splits)

lemma distinct_dict_set: "distinct (map fst kvs) \<Longrightarrow> distinct (map fst (dict_set k v kvs))"
  by (simp only: keys_dict_set split: if_splits) simp

lemma distinct_dict_del: "distinct (map fst kvs) \<Longrightarrow> distinct (map fst (dict_del k kvs))"
  by (simp only: keys_dict_del distinct_remove1)

lemma dict_get_del: "distinct (map fst kvs) \<Longrightarrow> dict_get (dict_del k kvs) k = None"
  by (simp only: dict_get_None_iff keys_dict_del) simp

lemma dict_get_del_other: "k' \<noteq> k \<Longrightarrow> dict_get (dict_del k kvs) k' = dict_get kvs k'"
  by (induction kvs) (auto split: if_splits)

lemma set_dict_set: "(k', v') \<in> set (dict_set k v kvs) \<Longrightarrow> (k', v') = (k, v) \<or> (k', v') \<in> set kvs"
  by (induction kvs) (auto split: if_splits)

lemma set_dict_del: "(k', v') \<in> set (dict_del k kvs) \<Longrightarrow> (k', v') \<in> set kvs"
  by (induction kvs) (auto split: if_splits)

lemma dict_del_absent: "k \<notin> set (map fst kvs) \<Longrightarrow> dict_del k kvs = kvs"
  by (induction kvs) (auto split: if_splits)

text \<open>
  C6: \<open>add_record\<close> followed by \<open>find\<close> with the record's name returns the reference to
  that very record, whose fields \<open>add_record\<close> leaves as they are, and the book keeps one
  entry per name, so an older entry of the same name is replaced, not merged; \<open>delete\<close>
  followed by \<open>find\<close> returns \<open>None\<close>; \<open>delete\<close> of a name that is not a key leaves
  the state unchanged and does not raise.
\<close>

theorem add_find_delete:
  "fst (find_record (name (heap st a)) (add_record a st)) = Some a \<and>
   heap (add_record a st) = heap st \<and>
   (distinct (map fst (data st)) \<longrightarrow>
      distinct (map fst (data (add_record a st))) \<and>
      fst (find_record n (delete n st)) = None) \<and>
   (n \<notin> set (map fst (data st)) \<longrightarrow> delete n st = st)"
proof (intro conjI impI)
  show "fst (find_record (name (heap st a)) (add_record a st)) = Some a"
    by (simp add: find_record_def add_record_def dict_get_set)
  show "heap (add_record a st) = heap st"
    by (simp add: add_record_def)
next
  assume "distinct (map fst (data st))"
  then show "distinct (map fst (data (add_record a st)))"
    using distinct_dict_set [of "data st" "name (heap st a)" a] by (simp add: add_record_def)
next
  assume d: "distinct (map fst (data st))"
  show "fst (find_record n (delete n st)) = None"
  proof (cases "n \<in> set (map fst (data st))")
    case True
    then show ?thesis
      using dict_get_del [OF d, of n] by (simp add: find_record_def delete_def)
  next
    case False
    then show ?thesis
      using dict_get_None_iff [of "data st" n] by (simp add: find_record_def delete_def)
  qed
next
  assume "n \<notin> set (map fst (data st))"
  then show "delete n st = st"
    by (simp add: delete_def)
qed

theorem add_find_delete_witness:
  "distinct (map fst (data two_johns)) \<and>
   ascii ''Jane'' \<notin> set (map fst (data two_johns)) \<and>
   fst (find_record (ascii ''John'') (add_record 1 two_johns)) = Some 1 \<and>
   phones (heap (add_record 1 two_johns) 1) = [ascii ''5555555555''] \<and>
   fst (find_record (ascii ''John'') (delete (ascii ''John'') two_johns)) = None \<and>
   delete (ascii ''Jane'') two_johns = two_johns"
proof -
  have d: "distinct (map fst (data two_johns))"
    by (simp add: two_johns_def)
  have j: "ascii ''Jane'' \<notin> set (map fst (data two_johns))"
    by (simp add: two_johns_def ascii_def)
  have n: "name (heap two_johns 1) = ascii ''John''"
    by (simp add: two_johns_def)
  have p: "phones (heap two_johns 1) = [ascii ''5555555555'']"
    by (simp add: two_johns_def)
  from add_find_delete [of two_johns 1 "ascii ''John''"] d n p
    add_find_delete [of two_johns 1 "ascii ''Jane''"] j
  show ?thesis by simp
qed

subsection \<open>Keys and names\<close>

lemma name_add_phone: "name (snd (add_phone r t)) = name r"
  by (simp add: add_phone_def split: sum.splits)

lemma name_remove_phone: "name (snd (remove_phone r t)) = name r"
  by (simp add: remove_phone_def)

lemma name_edit_phone: "name (snd (edit_phone r t t')) = name r"
  by (simp add: edit_phone_def split: prod.splits)

lemma name_add_birthday: "name (snd (add_birthday r t)) = name r"
  by (simp add: add_birthday_def split: sum.splits)

lemma book_inv_call:
  assumes "book_inv st" and "\<And>r. name (snd (m r)) = name r"
  shows "book_inv (snd (call a m st))"
  using assms by (auto simp: book_inv_def call_def split: prod.splits) (metis snd_conv)+

lemma call_fields:
  "heap (snd (call a m st)) = (heap st)(a := snd (m (heap st a)))"
  "alloc (snd (call a m st)) = alloc st"
  "data (snd (call a m st)) = data st"
  by (simp_all add: call_def split: prod.splits)

lemma book_inv_Record_new: "book_inv st \<Longrightarrow> book_inv (snd (Record_new n st))"
  by (auto simp: book_inv_def Record_new_def)

lemma book_inv_add_record:
  assumes "book_inv st" "a < alloc st"
  shows "book_inv (add_record a st)"
  using assms set_dict_set [of _ _ "name (heap st a)" a "data st"]
  by (fastforce simp: book_inv_def add_record_def)

lemma book_inv_delete: "book_inv st \<Longrightarrow> book_inv (delete n st)"
  using set_dict_del [of _ _ n "data st"]
  by (fastforce simp: book_inv_def delete_def)

lemma reachable_book_inv: "reachable st \<Longrightarrow> book_inv st"
proof (induction rule: reachable.induct)
  case r_empty
  show ?case by (simp add: book_inv_def empty_state_def)
next
  case (r_Record st n)
  then show ?case by (simp add: book_inv_Record_new)
next
  case (r_add_phone st a t)
  then show ?case by (simp add: book_inv_call name_add_phone)
next
  case (r_remove_phone st a t)
  then show ?case by (simp add: book_inv_call name_remove_phone)
next
  case (r_edit_phone st a t t')
  then show ?case by (simp add: book_inv_call name_edit_phone)
next
  case (r_add_birthday st a t)
  then show ?case by (simp add: book_inv_call name_add_birthday)
next
  case (r_add_record st a)
  then show ?case by (simp add: book_inv_add_record)
next
  case (r_delete st n)
  then show ?case by (simp add: book_inv_delete)
qed

lemma reachable_distinct: "reachable st \<Longrightarrow> distinct (map fst (data st))"
proof (induction rule: reachable.induct)
  case r_empty
  show ?case by (simp add: empty_state_def)
next
  case (r_add_record st a)
  then show ?case
    using distinct_dict_set [of "data st" "name (heap st a)" a] by (simp add: add_record_def)
next
  case (r_delete st n)
  then show ?case
    using distinct_dict_del [of "data st" n] by (simp add: delete_def)
qed (simp_all add: Record_new_def call_fields)

text \<open>
  C8: in every state reachable from the empty book by creating records, calling
  \<open>add_phone\<close>, \<open>remove_phone\<close>, \<open>edit_phone\<close> and \<open>add_birthday\<close> (the spec's
  \<open>set_birthday\<close>) on records, whether they return or raise, and by \<open>add_record\<close> and
  \<open>delete\<close>, every key of the book is the name of the record it maps to, and no two
  entries have the same key.
\<close>

theorem keys_are_names:
  "reachable st \<Longrightarrow>
     (\<forall>(k, a) \<in> set (data st). k = name (heap st a)) \<and> distinct (map fst (data st))"
  using reachable_book_inv [of st] reachable_distinct [of st]
  by (auto simp: book_inv_def)

theorem keys_are_names_witness:
  "reachable (add_record 0 (snd (call 0 (\<lambda>r. add_phone r (ascii ''1234567890''))
       (snd (Record_new (ascii ''John'') empty_state))))) \<and>
   data (add_record 0 (snd (call 0 (\<lambda>r. add_phone r (ascii ''1234567890''))
       (snd (Record_new (ascii ''John'') empty_state))))) = [(ascii ''John'', 0)] \<and>
   name (heap (add_record 0 (snd (call 0 (\<lambda>r. add_phone r (ascii ''1234567890''))
       (snd (Record_new (ascii ''John'') empty_state))))) 0) = ascii ''John''"
proof -
  let ?s1 = "snd (Record_new (ascii ''John'') empty_state)"
  let ?s2 = "snd (call 0 (\<lambda>r. add_phone r (ascii ''1234567890'')) ?s1)"
  let ?s3 = "add_record 0 ?s2"
  have a1: "alloc ?s1 = 1" by (simp add: Record_new_def empty_state_def)
  have r1: "reachable ?s1" by (rule r_Record [OF r_empty])
  have r2: "reachable ?s2" by (rule r_add_phone [OF r1]) (simp add: a1)
  have a2: "alloc ?s2 = 1" using a1 by (simp add: call_fields)
  have r3: "reachable ?s3" by (rule r_add_record [OF r2]) (simp add: a2)
  have n2: "name (heap ?s2 0) = ascii ''John''"
    by (simp add: call_fields name_add_phone Record_new_def empty_state_def Record_init_def)
  have d3: "data ?s3 = [(ascii ''John'', 0)]"
    using n2 by (simp add: add_record_def call_fields Record_new_def empty_state_def)
  from keys_are_names [OF r3] d3 have "name (heap ?s3 0) = ascii ''John''"
    by simp
  with r3 d3 show ?thesis by simp
qed

text \<open>
  C10: \<open>find\<close>, \<open>find_phone\<close> and \<open>get_upcoming_birthdays\<close> leave the state as it
  was: the book, every record and so every record's phones and birthday;
  \<open>get_upcoming_birthdays\<close> also when it raises.
\<close>

theorem queries_leave_state:
  "snd (find_record n st) = st \<and> snd (find_phone r t) = r \<and>
   snd (get_upcoming_birthdays today st) = st"
  by (simp add: find_record_def find_phone_def get_upcoming_birthdays_def)


lemma except_ValueError_valid:
  assumes "\<And>d. x = Inr d \<Longrightarrow> valid_date d" "\<And>d. h = Inr d \<Longrightarrow> valid_date d"
    and "except_ValueError x h = Inr p"
  shows "valid_date p"
  using assms by (auto simp: except_ValueError_def split: sum.splits if_splits)

lemma replace_year_valid: "replace_year b y = Inr d \<Longrightarrow> valid_date d \<and> year d = y"
  by (auto simp: replace_year_def dest: date_new_valid)

lemma project_valid:
  assumes "project today bday = Inr p"
  shows "valid_date p"
proof -
  have 1: "\<And>y d. except_ValueError (replace_year bday y) (date_new y 2 28) = Inr d \<Longrightarrow> valid_date d"
    by (rule except_ValueError_valid [where x = "replace_year bday _" and h = "date_new _ 2 28"])
      (auto dest: replace_year_valid date_new_valid)
  from assms show ?thesis
    by (auto simp: project_def split: sum.splits if_splits dest: 1)
qed





lemma weekend_shift_in_range:
  assumes "valid_date p" "weekday p = 5 \<and> k = 2 \<or> weekday p = 6 \<and> k = 1"
  shows "1 \<le> toordinal p + k \<and> toordinal p + k \<le> MAXORDINAL \<and> (toordinal p + k + 6) mod 7 = 0"
proof -
  from toordinal_range [OF assms(1)]
  have r: "1 \<le> toordinal p" "toordinal p \<le> 3652059" by (simp_all add: MAXORDINAL_def)
  have ne: "toordinal p \<noteq> 3652059" "toordinal p \<noteq> 3652058"
    using assms(2) by (auto simp: weekday_def)
  have m: "(toordinal p + k + 6) mod 7 = 0"
    using assms(2) unfolding weekday_def by presburger
  have "k \<le> 2" "0 \<le> k" using assms(2) by auto
  with r ne m show ?thesis by (simp add: MAXORDINAL_def)
qed

lemma congratulation_cases:
  assumes "valid_date p"
  shows "(\<not> (0 \<le> days_between p today \<and> days_between p today \<le> 7) \<longrightarrow>
            congratulation today p = Inr None) \<and>
         (0 \<le> days_between p today \<and> days_between p today \<le> 7 \<longrightarrow>
            (\<exists>d. congratulation today p = Inr (Some d) \<and> valid_date d \<and>
               0 \<le> weekday d \<and> weekday d \<le> 4 \<and>
               toordinal d = toordinal p +
                 (if weekday p = 5 then 2 else if weekday p = 6 then 1 else 0)))"
proof (intro conjI impI)
  assume "\<not> (0 \<le> days_between p today \<and> days_between p today \<le> 7)"
  then show "congratulation today p = Inr None"
    by (auto simp: congratulation_def Let_def)
next
  assume w: "0 \<le> days_between p today \<and> days_between p today \<le> 7"
  consider (sat) "weekday p = 5" | (sun) "weekday p = 6" | (work) "weekday p \<le> 4"
    using weekday_range [of p] by linarith
  then show "\<exists>d. congratulation today p = Inr (Some d) \<and> valid_date d \<and>
               0 \<le> weekday d \<and> weekday d \<le> 4 \<and>
               toordinal d = toordinal p +
                 (if weekday p = 5 then 2 else if weekday p = 6 then 1 else 0)"
  proof cases
    case sat
    from weekend_shift_in_range [OF assms, of 2] sat
    have r: "1 \<le> toordinal p + 2" "toordinal p + 2 \<le> MAXORDINAL"
      "(toordinal p + 2 + 6) mod 7 = 0" by simp_all
    from add_days_ok [OF r(1,2)] obtain d where
      d: "add_days p 2 = Inr d" "valid_date d" "toordinal d = toordinal p + 2" by blast
    with r(3) have "weekday d = 0" by (simp add: weekday_def)
    with d sat w show ?thesis by (simp add: congratulation_def Let_def)
  next
    case sun
    from weekend_shift_in_range [OF assms, of 1] sun
    have r: "1 \<le> toordinal p + 1" "toordinal p + 1 \<le> MAXORDINAL"
      "(toordinal p + 1 + 6) mod 7 = 0" by simp_all
    from add_days_ok [OF r(1,2)] obtain d where
      d: "add_days p 1 = Inr d" "valid_date d" "toordinal d = toordinal p + 1" by blast
    with r(3) have "weekday d = 0" by (simp add: weekday_def)
    with d sun w show ?thesis by (simp add: congratulation_def Let_def)
  next
    case work
    with w assms weekday_range [of p] show ?thesis
      by (simp add: congratulation_def Let_def)
  qed
qed

lemmas date_eval =
  project_def except_ValueError_def is_ValueError_def replace_year_def date_new_def
  days_in_month_def is_leap_def DAYS_IN_MONTH_def date_less_def MINYEAR_def MAXYEAR_def
  toordinal_def ymd2ord_def days_before_year_def days_before_month_def DAYS_BEFORE_MONTH_def
  weekday_def days_between_def

lemmas ordinal_eval =
  congratulation_def add_days_def fromordinal_def ord2ymd_def month_day_of_offset_def
  MAXORDINAL_def Let_def

lemma upcoming_entry_Some:
  assumes "upcoming_entry today r = Inr (Some e)"
  shows "\<exists>bday p d. birthday r = Some bday \<and> project today bday = Inr p \<and>
     congratulation today p = Inr (Some d) \<and> e = (name r, strftime_Ymd d)"
  using assms by (auto simp: upcoming_entry_def split: option.splits sum.splits)

lemma upcoming_loop_eq:
  "upcoming_loop today rs acc = Inr entries \<Longrightarrow>
   entries = acc @ concat (map (\<lambda>r. case upcoming_entry today r of
                                        Inr (Some e) \<Rightarrow> [e] | _ \<Rightarrow> []) rs)"
proof (induction rs arbitrary: acc)
  case Nil
  then show ?case by simp
next
  case (Cons r rs)
  show ?case
  proof (cases "upcoming_entry today r")
    case (Inl e)
    with Cons.prems show ?thesis by simp
  next
    case (Inr x)
    show ?thesis
    proof (cases x)
      case None
      with Inr Cons.prems Cons.IH [of acc] show ?thesis by simp
    next
      case (Some e)
      with Inr Cons.prems Cons.IH [of "acc @ [e]"] show ?thesis by simp
    qed
  qed
qed


lemma entry_date_props:
  assumes "project today bday = Inr p" "congratulation today p = Inr (Some d)"
  shows "valid_date d \<and> 0 \<le> weekday d \<and> weekday d \<le> 4 \<and>
     0 \<le> days_between p today \<and> days_between p today \<le> 7 \<and>
     days_between d today = days_between p today +
       (if weekday p = 5 then 2 else if weekday p = 6 then 1 else 0)"
proof -
  have v: "valid_date p" using assms(1) by (rule project_valid)
  from congratulation_cases [OF v, of today] assms(2) show ?thesis
    by (auto simp: days_between_def)
qed

text \<open>
  C9: every date \<open>get_upcoming_birthdays\<close> returns is a calendar date that falls on
  Monday to Friday and lies between 0 and 9 days after \<open>today\<close>.
\<close>

theorem congratulation_on_weekdays:
  assumes "fst (get_upcoming_birthdays today st) = Inr entries"
  shows "\<forall>(n, s) \<in> set entries. \<exists>d. s = strftime_Ymd d \<and> valid_date d \<and>
     0 \<le> weekday d \<and> weekday d \<le> 4 \<and>
     0 \<le> days_between d today \<and> days_between d today \<le> 9"
proof -
  from assms have "upcoming_loop today (map (\<lambda>(k, a). heap st a) (data st)) [] = Inr entries"
    by (simp add: get_upcoming_birthdays_def)
  from upcoming_loop_eq [OF this]
  have "\<forall>e \<in> set entries. \<exists>r. upcoming_entry today r = Inr (Some e)"
    by (auto split: sum.splits option.splits)
  then show ?thesis
    by (auto dest!: bspec upcoming_entry_Some entry_date_props) 
qed

lemma alice_bob_upcoming:
  "get_upcoming_birthdays \<lparr>year = 2024, month = 6, day = 10\<rparr> alice_bob =
     (Inr [(ascii ''Alice'', ascii ''2024.06.14''), (ascii ''Bob'', ascii ''2024.06.11'')],
      alice_bob)"
  by (simp add: get_upcoming_birthdays_def alice_bob_def upcoming_entry_def date_eval
      ordinal_eval strftime_Ymd_def digit_char_def ascii_def)



lemma leap_book_crash:
  "get_upcoming_birthdays \<lparr>year = 9999, month = 3, day = 1\<rparr> leap_book =
     (Inl DateValueError, leap_book)"
  by (simp add: get_upcoming_birthdays_def leap_book_def leapling_def upcoming_entry_def
      date_eval)

theorem congratulation_on_weekdays_witness:
  "fst (get_upcoming_birthdays \<lparr>year = 2024, month = 6, day = 10\<rparr> alice_bob) =
     Inr [(ascii ''Alice'', ascii ''2024.06.14''), (ascii ''Bob'', ascii ''2024.06.11'')] \<and>
   (\<exists>d. ascii ''2024.06.14'' = strftime_Ymd d \<and> valid_date d \<and>
      0 \<le> weekday d \<and> weekday d \<le> 4 \<and>
      0 \<le> days_between d \<lparr>year = 2024, month = 6, day = 10\<rparr> \<and>
      days_between d \<lparr>year = 2024, month = 6, day = 10\<rparr> \<le> 9) \<and>
   (\<exists>d. ascii ''2024.06.11'' = strftime_Ymd d \<and> valid_date d \<and>
      0 \<le> weekday d \<and> weekday d \<le> 4 \<and>
      0 \<le> days_between d \<lparr>year = 2024, month = 6, day = 10\<rparr> \<and>
      days_between d \<lparr>year = 2024, month = 6, day = 10\<rparr> \<le> 9)"
proof -
  have e: "fst (get_upcoming_birthdays \<lparr>year = 2024, month = 6, day = 10\<rparr> alice_bob) =
     Inr [(ascii ''Alice'', ascii ''2024.06.14''), (ascii ''Bob'', ascii ''2024.06.11'')]"
    by (simp add: alice_bob_upcoming)
  from congratulation_on_weekdays [OF e]
  have "\<forall>(n, s) \<in> {(ascii ''Alice'', ascii ''2024.06.14''), (ascii ''Bob'', ascii ''2024.06.11'')}.
     \<exists>d. s = strftime_Ymd d \<and> valid_date d \<and> 0 \<le> weekday d \<and> weekday d \<le> 4 \<and>
       0 \<le> days_between d \<lparr>year = 2024, month = 6, day = 10\<rparr> \<and>
       days_between d \<lparr>year = 2024, month = 6, day = 10\<rparr> \<le> 9"
    by simp
  with e show ?thesis by blast
qed





















lemma not_decimal_46: "\<not> isdecimal_char 46"
  by (simp add: isdecimal_char_def in_ranges_def decimal_ranges_def)

lemma not_decimal_32: "\<not> isdecimal_char 32"
  by (simp add: isdecimal_char_def in_ranges_def decimal_ranges_def)

lemma group_d_sound: "(d, r) \<in> set (group_d s) \<Longrightarrow> s = d @ r \<and> day_text d"
  by (auto simp: group_d_def alt1_def alt2_def split: list.splits if_splits)

lemma group_m_sound: "(m, r) \<in> set (group_m s) \<Longrightarrow> s = m @ r \<and> month_text m"
  by (auto simp: group_m_def alt1_def alt2_def split: list.splits if_splits)

lemma group_Y_sound: "(y, r) \<in> set (group_Y s) \<Longrightarrow> s = y @ r \<and> year_text y"
  by (auto simp: group_Y_def year_text_def split: list.splits if_splits)

lemma dot_sound: "r' \<in> set (dot r) \<Longrightarrow> r = 46 # r'"
  by (auto simp: dot_def split: list.splits if_splits)

lemma format_regex_match_sound:
  assumes "(d, m, y, rest) \<in> set (format_regex_match s)"
  shows "s = d @ 46 # m @ 46 # y @ rest \<and> day_text d \<and> month_text m \<and> year_text y"
proof -
  from assms obtain r1 r2 r3 r4 where
    "(d, r1) \<in> set (group_d s)" "r2 \<in> set (dot r1)" "(m, r3) \<in> set (group_m r2)"
    "r4 \<in> set (dot r3)" "(y, rest) \<in> set (group_Y r4)"
    by (auto simp: format_regex_match_def)
  then show ?thesis
    by (auto dest!: group_d_sound group_m_sound group_Y_sound dot_sound)
qed

lemma alt1_mem: "p c \<Longrightarrow> ([c], r) \<in> set (alt1 p (c # r))"
  by (simp add: alt1_def)

lemma alt2_mem: "p c1 \<Longrightarrow> q c2 \<Longrightarrow> ([c1, c2], r) \<in> set (alt2 p q (c1 # c2 # r))"
  by (simp add: alt2_def)

lemma day_text_forms:
  assumes "day_text d"
  obtains (one) c where "d = [c]" "between 49 57 c"
    | (two) c1 c2 where "d = [c1, c2]"
        "c1 = 51 \<and> between 48 49 c2 \<or> between 49 50 c1 \<and> isdecimal_char c2 \<or>
         (c1 = 48 \<or> c1 = 32) \<and> between 49 57 c2"
  using assms by (cases d rule: day_text.cases) simp_all

lemma month_text_forms:
  assumes "month_text m"
  obtains (one) c where "m = [c]" "between 49 57 c"
    | (two) c1 c2 where "m = [c1, c2]"
        "c1 = 49 \<and> between 48 50 c2 \<or> c1 = 48 \<and> between 49 57 c2"
  using assms by (cases m rule: month_text.cases) simp_all

lemma group_d_complete:
  assumes "day_text d"
  shows "(d, r) \<in> set (group_d (d @ r))"
  using assms
proof (cases rule: day_text_forms)
  case (one c)
  then show ?thesis
    using alt1_mem [of "between 49 57" c r] by (simp add: group_d_def)
next
  case (two c1 c2)
  then consider "c1 = 51 \<and> between 48 49 c2" | "between 49 50 c1 \<and> isdecimal_char c2"
    | "c1 = 48 \<and> between 49 57 c2" | "c1 = 32 \<and> between 49 57 c2" by blast
  then show ?thesis
  proof cases
    case 1
    then show ?thesis
      using two(1) alt2_mem [of "\<lambda>c. c = 51" c1 "between 48 49" c2 r] by (simp add: group_d_def)
  next
    case 2
    then show ?thesis
      using two(1) alt2_mem [of "between 49 50" c1 isdecimal_char c2 r] by (simp add: group_d_def)
  next
    case 3
    then show ?thesis
      using two(1) alt2_mem [of "\<lambda>c. c = 48" c1 "between 49 57" c2 r] by (simp add: group_d_def)
  next
    case 4
    then show ?thesis
      using two(1) alt2_mem [of "\<lambda>c. c = 32" c1 "between 49 57" c2 r] by (simp add: group_d_def)
  qed
qed

lemma group_m_complete:
  assumes "month_text m"
  shows "(m, r) \<in> set (group_m (m @ r))"
  using assms
proof (cases rule: month_text_forms)
  case (one c)
  then show ?thesis
    using alt1_mem [of "between 49 57" c r] by (simp add: group_m_def)
next
  case (two c1 c2)
  then consider "c1 = 49 \<and> between 48 50 c2" | "c1 = 48 \<and> between 49 57 c2" by blast
  then show ?thesis
  proof cases
    case 1
    then show ?thesis
      using two(1) alt2_mem [of "\<lambda>c. c = 49" c1 "between 48 50" c2 r] by (simp add: group_m_def)
  next
    case 2
    then show ?thesis
      using two(1) alt2_mem [of "\<lambda>c. c = 48" c1 "between 49 57" c2 r] by (simp add: group_m_def)
  qed
qed

lemma group_Y_complete:
  assumes "year_text y"
  shows "(y, r) \<in> set (group_Y (y @ r))"
proof -
  from assms have "length y = 4" by (simp add: year_text_def)
  then obtain c1 c2 c3 c4 where "y = [c1, c2, c3, c4]"
    by (auto simp: length_Suc_conv numeral_eq_Suc)
  with assms show ?thesis by (simp add: group_Y_def year_text_def)
qed

lemma day_text_no_dot: "day_text d \<Longrightarrow> 46 \<notin> set d"
  using not_decimal_46
  by (induction d rule: day_text.induct) (auto simp: between_def)

lemma month_text_no_dot: "month_text m \<Longrightarrow> 46 \<notin> set m"
  by (induction m rule: month_text.induct) (auto simp: between_def)

end
